theory Spec2Isabelle
  imports Main "HOL-Library.Char_ord" "HOL-Library.List_Lexorder"
    "HOL-Library.Product_Lexorder" "HOL-Library.Multiset"
begin

section \<open>Text primitives of the Python runtime\<close>

text \<open>
  The log and the output of the session-history command are text. A Python string is
  modelled as a \<open>string\<close>; the development covers ASCII text, where \<open>\s\<close>, \<open>\d\<close> and
  \<open>\w\<close> of the \<open>re\<close> module and the whitespace of \<open>str.split()\<close> are the sets below.
\<close>

definition is_space :: "char \<Rightarrow> bool" where
  "is_space c = (c \<in> set [CHR '' '', CHR 0x09, CHR 0x0A, CHR 0x0B, CHR 0x0C, CHR 0x0D,
                           CHR 0x1C, CHR 0x1D, CHR 0x1E, CHR 0x1F])"

definition is_digit :: "char \<Rightarrow> bool" where
  "is_digit c = (c \<in> set ''0123456789'')"

definition is_word :: "char \<Rightarrow> bool" where
  "is_word c = (c \<in> set ''abcdefghijklmnopqrstuvwxyzABCDEFGHIJKLMNOPQRSTUVWXYZ0123456789_'')"

definition lower_chr :: "char \<Rightarrow> char" where
  "lower_chr c = (case map_of (zip ''ABCDEFGHIJKLMNOPQRSTUVWXYZ'' ''abcdefghijklmnopqrstuvwxyz'') c of
                    Some l \<Rightarrow> l | None \<Rightarrow> c)"

definition lower :: "string \<Rightarrow> string" where
  "lower s = map lower_chr s"

text \<open>\<open>str.split()\<close> without arguments: the maximal runs of non-whitespace characters.
  The first argument is the token being read, reversed.\<close>

fun split_aux :: "string \<Rightarrow> string \<Rightarrow> string list" where
  "split_aux cur [] = (if cur = [] then [] else [rev cur])"
| "split_aux cur (c # cs) =
     (if is_space c then (if cur = [] then split_aux [] cs else rev cur # split_aux [] cs)
      else split_aux (c # cur) cs)"

definition split :: "string \<Rightarrow> string list" where
  "split s = split_aux [] s"

text \<open>\<open>str.splitlines()\<close>: a line ends at a line boundary (\<open>\r\n\<close> counts as one); the
  boundaries are dropped and there is no empty last line.\<close>

definition is_linebreak :: "char \<Rightarrow> bool" where
  "is_linebreak c = (c \<in> set [CHR 0x0A, CHR 0x0B, CHR 0x0C, CHR 0x0D, CHR 0x1C, CHR 0x1D, CHR 0x1E])"

fun splitlines_aux :: "string \<Rightarrow> string \<Rightarrow> string list" where
  "splitlines_aux cur [] = (if cur = [] then [] else [rev cur])"
| "splitlines_aux cur [c] = (if is_linebreak c then [rev cur] else [rev (c # cur)])"
| "splitlines_aux cur (c # d # cs) =
     (if c = CHR 0x0D \<and> d = CHR 0x0A then rev cur # splitlines_aux [] cs
      else if is_linebreak c then rev cur # splitlines_aux [] (d # cs)
      else splitlines_aux (c # cur) (d # cs))"

definition splitlines :: "string \<Rightarrow> string list" where
  "splitlines s = splitlines_aux [] s"

text \<open>\<open>' '.join(parts)\<close>.\<close>

fun join_sp :: "string list \<Rightarrow> string" where
  "join_sp [] = []"
| "join_sp [p] = p"
| "join_sp (p # q # ps) = p @ '' '' @ join_sp (q # ps)"

text \<open>\<open>int(s)\<close> on a string of decimal digits, after the leading whitespace \<open>int\<close> strips.\<close>

definition digit_val :: "char \<Rightarrow> nat" where
  "digit_val c = (case map_of (zip ''0123456789'' [0, 1, 2, 3, 4, 5, 6, 7, 8, 9]) c of
                    Some d \<Rightarrow> d | None \<Rightarrow> 0)"

definition py_int :: "string \<Rightarrow> nat" where
  "py_int s = foldl (\<lambda>a c. 10 * a + digit_val c) 0 (dropWhile is_space s)"

section \<open>Regular expressions of the \<open>re\<close> module\<close>

text \<open>
  The fragment of \<open>re\<close> the program and \<open>strptime\<close> use: literals, character classes
  (\<open>OneOf ''01''\<close> is \<open>[0-1]\<close>),
  greedy \<open>+\<close> on a class, concatenation, ordered alternation, greedy \<open>?\<close> and named groups.
  \<open>LitI\<close> is a literal under \<open>re.IGNORECASE\<close>.
\<close>

datatype cls = Digit | Word | Space | OneOf string

fun cls_ok :: "cls \<Rightarrow> char \<Rightarrow> bool" where
  "cls_ok Digit c = is_digit c"
| "cls_ok Word c = is_word c"
| "cls_ok Space c = is_space c"
| "cls_ok (OneOf cs) c = (c \<in> set cs)"

datatype regex =
    Lit string
  | LitI string
  | Cls cls
  | Plus cls
  | Seq regex regex
  | Alt regex regex
  | Opt regex
  | Grp string regex

type_synonym groups = "string \<rightharpoonup> string"

text \<open>Greedy \<open>c+\<close> with backtracking: the longest run first, then shorter ones, each
  handed to the continuation \<open>k\<close> until one succeeds.\<close>

fun plus_from :: "cls \<Rightarrow> string \<Rightarrow> (string \<Rightarrow> 'r option) \<Rightarrow> 'r option" where
  "plus_from c [] k = None"
| "plus_from c (x # xs) k =
     (if cls_ok c x
      then (case plus_from c xs k of Some r \<Rightarrow> Some r | None \<Rightarrow> k xs)
      else None)"

text \<open>The backtracking matcher: \<open>rmatch r s g k\<close> matches \<open>r\<close> at the head of \<open>s\<close> and hands
  the rest of the input and the groups to \<open>k\<close>; alternatives are tried in the order
  written.\<close>

fun rmatch :: "regex \<Rightarrow> string \<Rightarrow> groups \<Rightarrow> (string \<Rightarrow> groups \<Rightarrow> 'r option) \<Rightarrow> 'r option" where
  "rmatch (Lit w) s g k = (if take (length w) s = w then k (drop (length w) s) g else None)"
| "rmatch (LitI w) s g k =
     (if length w \<le> length s \<and> lower (take (length w) s) = lower w
      then k (drop (length w) s) g else None)"
| "rmatch (Cls c) s g k = (case s of [] \<Rightarrow> None | x # xs \<Rightarrow> if cls_ok c x then k xs g else None)"
| "rmatch (Plus c) s g k = plus_from c s (\<lambda>rest. k rest g)"
| "rmatch (Seq a b) s g k = rmatch a s g (\<lambda>rest g'. rmatch b rest g' k)"
| "rmatch (Alt a b) s g k = (case rmatch a s g k of Some r \<Rightarrow> Some r | None \<Rightarrow> rmatch b s g k)"
| "rmatch (Opt a) s g k = (case rmatch a s g k of Some r \<Rightarrow> Some r | None \<Rightarrow> k s g)"
| "rmatch (Grp n a) s g k =
     rmatch a s g (\<lambda>rest g'. k rest (g'(n \<mapsto> take (length s - length rest) s)))"

text \<open>\<open>pattern.match(s)\<close>: anchored at the start; the result is the unread rest of the
  input and the groups.\<close>

definition re_match :: "regex \<Rightarrow> string \<Rightarrow> (string \<times> groups) option" where
  "re_match r s = rmatch r s Map.empty (\<lambda>rest g. Some (rest, g))"

text \<open>\<open>pattern.search(s)\<close>: the match at the leftmost position that has one.\<close>

fun search :: "regex \<Rightarrow> string \<Rightarrow> groups option" where
  "search r [] = rmatch r [] Map.empty (\<lambda>rest g. Some g)"
| "search r (x # xs) =
     (case rmatch r (x # xs) Map.empty (\<lambda>rest g. Some g) of
        Some g \<Rightarrow> Some g
      | None \<Rightarrow> search r xs)"

fun cat :: "regex list \<Rightarrow> regex" where
  "cat [] = Lit []"
| "cat [r] = r"
| "cat (r # q # rs) = Seq r (cat (q # rs))"

fun alts :: "regex list \<Rightarrow> regex" where
  "alts [] = Lit []"
| "alts [r] = r"
| "alts (r # q # rs) = Alt r (alts (q # rs))"

text \<open>\<open>\d+\.\d+\.\d+\.\d+\<close>\<close>

definition IPV4 :: regex where
  "IPV4 = cat [Plus Digit, Lit ''.'', Plus Digit, Lit ''.'', Plus Digit, Lit ''.'', Plus Digit]"

text \<open>
  \<^verbatim>\<open>PATTERNS = [
    re.compile(r"Failed password for (?P<user>\w+) from (?P<ip>\d+\.\d+\.\d+\.\d+)(?: port \d+)?"),
    re.compile(r"Invalid user (?P<user>\w+) from (?P<ip>\d+\.\d+\.\d+\.\d+)")]\<close>
\<close>

definition PAT_FAILED :: regex where
  "PAT_FAILED = cat [Lit ''Failed password for '', Grp ''user'' (Plus Word), Lit '' from '',
                     Grp ''ip'' IPV4, Opt (cat [Lit '' port '', Plus Digit])]"

definition PAT_INVALID :: regex where
  "PAT_INVALID = cat [Lit ''Invalid user '', Grp ''user'' (Plus Word), Lit '' from '',
                      Grp ''ip'' IPV4]"

definition PATTERNS :: "regex list" where
  "PATTERNS = [PAT_FAILED, PAT_INVALID]"

section \<open>Timestamps: \<open>datetime.strptime\<close> and \<open>strftime\<close>\<close>

datatype exn = ValueError | FileNotFoundError | PermissionError | OSError | CalledProcessError int

record datetime =
  year :: nat
  month :: nat
  day :: nat
  hour :: nat
  minute :: nat
  second :: nat

definition MONTHS :: "string list" where
  "MONTHS = [''jan'', ''feb'', ''mar'', ''apr'', ''may'', ''jun'',
             ''jul'', ''aug'', ''sep'', ''oct'', ''nov'', ''dec'']"

text \<open>
  The regular expression the standard library builds for the format
  \<^verbatim>\<open>'%b %d %H:%M:%S'\<close>, compiled with \<open>IGNORECASE\<close>:
  \<^verbatim>\<open>(?P<b>jan|feb|...|dec)\s+(?P<d>3[0-1]|[1-2]\d|0[1-9]|[1-9]| [1-9])\s+
  (?P<H>2[0-3]|[0-1]\d|\d):(?P<M>[0-5]\d|\d):(?P<S>6[0-1]|[0-5]\d|\d)\<close>
\<close>

definition STRPTIME_RE :: regex where
  "STRPTIME_RE = cat [
     Grp ''b'' (alts (map LitI MONTHS)),
     Plus Space,
     Grp ''d'' (alts [cat [Lit ''3'', Cls (OneOf ''01'')], cat [Cls (OneOf ''12''), Cls Digit],
                     cat [Lit ''0'', Cls (OneOf ''123456789'')], Cls (OneOf ''123456789''),
                     cat [Lit '' '', Cls (OneOf ''123456789'')]]),
     Plus Space,
     Grp ''H'' (alts [cat [Lit ''2'', Cls (OneOf ''0123'')], cat [Cls (OneOf ''01''), Cls Digit],
                     Cls Digit]),
     Lit '':'',
     Grp ''M'' (alts [cat [Cls (OneOf ''012345''), Cls Digit], Cls Digit]),
     Lit '':'',
     Grp ''S'' (alts [cat [Lit ''6'', Cls (OneOf ''01'')], cat [Cls (OneOf ''012345''), Cls Digit],
                     Cls Digit])]"

fun index_of :: "'a list \<Rightarrow> 'a \<Rightarrow> nat option" where
  "index_of [] x = None"
| "index_of (y # ys) x = (if y = x then Some 0 else map_option Suc (index_of ys x))"

definition is_leap :: "nat \<Rightarrow> bool" where
  "is_leap y = (y mod 4 = 0 \<and> (y mod 100 \<noteq> 0 \<or> y mod 400 = 0))"

definition days_in_month :: "nat \<Rightarrow> nat \<Rightarrow> nat" where
  "days_in_month y m =
     (if m = 2 then (if is_leap y then 29 else 28)
      else if m \<in> {4, 6, 9, 11} then 30 else 31)"

text \<open>The constructor \<open>datetime(year, month, day, hour, minute, second)\<close>, which raises
  \<open>ValueError\<close> on a field out of range.\<close>

definition datetime_new :: "nat \<Rightarrow> nat \<Rightarrow> nat \<Rightarrow> nat \<Rightarrow> nat \<Rightarrow> nat \<Rightarrow> exn + datetime" where
  "datetime_new y m d H M S =
     (if 1 \<le> y \<and> y \<le> 9999 \<and> 1 \<le> m \<and> m \<le> 12 \<and> 1 \<le> d \<and> d \<le> days_in_month y m
         \<and> H \<le> 23 \<and> M \<le> 59 \<and> S \<le> 59
      then Inr \<lparr>year = y, month = m, day = d, hour = H, minute = M, second = S\<rparr>
      else Inl ValueError)"

text \<open>
  \<^verbatim>\<open>datetime.strptime(timestamp_str, '%b %d %H:%M:%S')\<close>: the whole string has to match
  the expression; the format has no year directive, so the year is the default of
  \<open>strptime\<close>, 1900. Every failure is a \<open>ValueError\<close>. The last branch of the \<open>case\<close>
  is never taken, since every group of the expression takes part in a match.
\<close>

definition strptime :: "string \<Rightarrow> exn + datetime" where
  "strptime s =
     (case re_match STRPTIME_RE s of
        None \<Rightarrow> Inl ValueError
      | Some (rest, g) \<Rightarrow>
          if rest \<noteq> [] then Inl ValueError
          else (case (g ''b'', g ''d'', g ''H'', g ''M'', g ''S'') of
                  (Some b, Some d, Some H, Some M, Some S) \<Rightarrow>
                    (case index_of MONTHS (lower b) of
                       None \<Rightarrow> Inl ValueError
                     | Some i \<Rightarrow> datetime_new 1900 (i + 1) (py_int d) (py_int H) (py_int M) (py_int S))
                | _ \<Rightarrow> Inl ValueError))"

text \<open>Decimal numerals, \<open>%Y\<close> (no padding needed from the year 1000 on) and the
  two-digit fields \<open>%m\<close>, \<open>%d\<close>, \<open>%H\<close>.\<close>

definition digit_chr :: "nat \<Rightarrow> char" where
  "digit_chr n = ''0123456789'' ! (n mod 10)"

fun dec :: "nat \<Rightarrow> string" where
  "dec n = (if n < 10 then [digit_chr n] else dec (n div 10) @ [digit_chr n])"

declare dec.simps [simp del]

definition pad2 :: "nat \<Rightarrow> string" where
  "pad2 n = (if n < 10 then CHR ''0'' # dec n else dec n)"

text \<open>\<^verbatim>\<open>dt.strftime('%Y-%m-%d %H:00')\<close>\<close>

definition strftime_hour :: "datetime \<Rightarrow> string" where
  "strftime_hour dt =
     dec (year dt) @ ''-'' @ pad2 (month dt) @ ''-'' @ pad2 (day dt) @ '' '' @ pad2 (hour dt) @ '':00''"

section \<open>Counters\<close>

text \<open>
  A \<open>collections.Counter\<close> is a dictionary, and a dictionary keeps its keys in the order
  of their first insertion: an association list with distinct keys, in that order.
  A missing key reads as 0.
\<close>

type_synonym counter = "(string \<times> nat) list"

definition counter_get :: "counter \<Rightarrow> string \<Rightarrow> nat" where
  "counter_get c k = (case map_of c k of Some n \<Rightarrow> n | None \<Rightarrow> 0)"

fun counter_set :: "string \<Rightarrow> nat \<Rightarrow> counter \<Rightarrow> counter" where
  "counter_set k v [] = [(k, v)]"
| "counter_set k v ((k', n) # c) = (if k' = k then (k, v) # c else (k', n) # counter_set k v c)"

text \<open>\<^verbatim>\<open>counts[key] += 1\<close>\<close>

definition counter_incr :: "string \<Rightarrow> counter \<Rightarrow> counter" where
  "counter_incr k c = counter_set k (counter_get c k + 1) c"

text \<open>\<open>Counter.most_common(n)\<close> is \<open>heapq.nlargest(n, items, key=count)\<close>, that is
  \<open>sorted(items, key=count, reverse=True)[:n]\<close>, and \<open>sorted\<close> is stable.\<close>

definition most_common :: "nat \<Rightarrow> counter \<Rightarrow> (string \<times> nat) list" where
  "most_common n c = take n (sort_key (\<lambda>(k, cnt). - int cnt) c)"

text \<open>\<open>sorted(counts.items())\<close>: the pairs in ascending order, compared as tuples.\<close>

definition sorted_items :: "counter \<Rightarrow> (string \<times> nat) list" where
  "sorted_items c = sort c"

section \<open>The allowlist: \<open>get_known_ips\<close>\<close>

text \<open>The argument is what \<^verbatim>\<open>subprocess.check_output(['last', '-i'], ...)\<close> does: it
  raises (command missing, non-zero exit status, ...) or returns the output.\<close>

definition known_ip_line :: "string \<Rightarrow> string set \<Rightarrow> string set" where
  "known_ip_line line ips =
     (let parts = split line in
      if length parts \<ge> 3 \<and> re_match IPV4 (parts ! 2) \<noteq> None
      then insert (parts ! 2) ips else ips)"

fun get_known_ips :: "exn + string \<Rightarrow> string set" where
  "get_known_ips (Inl e) = {}"
| "get_known_ips (Inr output) = fold known_ip_line (splitlines output) {}"

section \<open>The aggregation: \<open>compute_stats\<close>\<close>

record counters =
  user_counts :: counter
  ip_counts :: counter
  hourly_counts :: counter

record stats =
  top_users :: "(string \<times> nat) list"
  top_ips :: "(string \<times> nat) list"
  hourly :: "(string \<times> nat) list"

definition no_counts :: counters where
  "no_counts = \<lparr>user_counts = [], ip_counts = [], hourly_counts = []\<rparr>"

text \<open>The body of \<^verbatim>\<open>for pat in PATTERNS\<close>. The loop has no \<open>break\<close>: it runs for every
  pattern. Both groups take part in every match of both patterns, so the last branch of
  the \<open>case\<close> is never taken (\<open>PATTERNS_groups\<close> below).\<close>

definition apply_pattern :: "string set \<Rightarrow> string \<Rightarrow> string \<Rightarrow> regex \<Rightarrow> counters \<Rightarrow> counters" where
  "apply_pattern known_ips line hour_label pat c =
     (case search pat line of
        None \<Rightarrow> c
      | Some m \<Rightarrow>
          (case (m ''ip'', m ''user'') of
             (Some ip, Some user) \<Rightarrow>
               if ip \<notin> known_ips
               then \<lparr>user_counts = counter_incr user (user_counts c),
                     ip_counts = counter_incr ip (ip_counts c),
                     hourly_counts = counter_incr hour_label (hourly_counts c)\<rparr>
               else c
           | _ \<Rightarrow> c))"

text \<open>The body of \<^verbatim>\<open>for line in f\<close>.\<close>

definition process_line :: "string set \<Rightarrow> string \<Rightarrow> counters \<Rightarrow> counters" where
  "process_line known_ips line c =
     (let parts = split line in
      if length parts < 3 then c
      else (case strptime (join_sp (take 3 parts)) of
              Inl e \<Rightarrow> c
            | Inr dt \<Rightarrow> fold (apply_pattern known_ips line (strftime_hour dt)) PATTERNS c))"

text \<open>
  The log file: \<open>open\<close> raises, or the file is open and iterating over it yields lines
  until the end of the file or until reading raises. The counters are updated in place,
  so when the loop is left by an exception they hold what the lines read so far added.
\<close>

datatype read = Line string | ReadError exn

datatype log_file = OpenError exn | Opened "read list"

fun read_loop :: "string set \<Rightarrow> read list \<Rightarrow> counters \<Rightarrow> counters \<times> exn option" where
  "read_loop known_ips [] c = (c, None)"
| "read_loop known_ips (ReadError e # rest) c = (c, Some e)"
| "read_loop known_ips (Line l # rest) c = read_loop known_ips rest (process_line known_ips l c)"

text \<open>The counters at the \<open>return\<close>: \<^verbatim>\<open>except Exception: pass\<close> drops the exception and
  keeps them.\<close>

definition final_counts :: "string set \<Rightarrow> log_file \<Rightarrow> counters" where
  "final_counts known_ips log =
     (case log of
        OpenError e \<Rightarrow> no_counts
      | Opened rs \<Rightarrow> fst (read_loop known_ips rs no_counts))"

definition snapshot :: "counters \<Rightarrow> stats" where
  "snapshot c = \<lparr>top_users = most_common 10 (user_counts c),
                 top_ips = most_common 10 (ip_counts c),
                 hourly = sorted_items (hourly_counts c)\<rparr>"

definition compute_stats :: "exn + string \<Rightarrow> log_file \<Rightarrow> stats" where
  "compute_stats last_output log = snapshot (final_counts (get_known_ips last_output) log)"

section \<open>Notions the properties are stated with\<close>

text \<open>The lines the loop reads: those the iterator yields before it raises, if it does.\<close>

fun lines_read :: "read list \<Rightarrow> string list" where
  "lines_read [] = []"
| "lines_read (ReadError e # rest) = []"
| "lines_read (Line l # rest) = l # lines_read rest"

definition log_lines :: "log_file \<Rightarrow> string list" where
  "log_lines log = (case log of OpenError e \<Rightarrow> [] | Opened rs \<Rightarrow> lines_read rs)"

text \<open>The hour label of a line: what \<open>hour_label\<close> holds when the loop reaches the
  patterns, \<open>None\<close> when the line is skipped before.\<close>

definition hour_label_of :: "string \<Rightarrow> string option" where
  "hour_label_of line =
     (let parts = split line in
      if length parts < 3 then None
      else (case strptime (join_sp (take 3 parts)) of
              Inl e \<Rightarrow> None
            | Inr dt \<Rightarrow> Some (strftime_hour dt)))"

text \<open>An event is an hour label, a user and an address. A line yields one event for
  each pattern that matches it, in the order of \<open>PATTERNS\<close>.\<close>

type_synonym event = "string \<times> string \<times> string"

definition ev_hour :: "event \<Rightarrow> string" where
  "ev_hour e = fst e"

definition ev_user :: "event \<Rightarrow> string" where
  "ev_user e = fst (snd e)"

definition ev_ip :: "event \<Rightarrow> string" where
  "ev_ip e = snd (snd e)"

definition pattern_event :: "string \<Rightarrow> string \<Rightarrow> regex \<Rightarrow> event list" where
  "pattern_event hour_label line pat =
     (case search pat line of
        None \<Rightarrow> []
      | Some m \<Rightarrow>
          (case (m ''ip'', m ''user'') of
             (Some ip, Some user) \<Rightarrow> [(hour_label, user, ip)]
           | _ \<Rightarrow> []))"

definition line_events :: "string \<Rightarrow> event list" where
  "line_events line =
     (case hour_label_of line of
        None \<Rightarrow> []
      | Some hl \<Rightarrow> concat (map (pattern_event hl line) PATTERNS))"

text \<open>The events that are counted: those of the lines read whose address is not in the
  allowlist.\<close>

definition counted_events :: "string set \<Rightarrow> log_file \<Rightarrow> event list" where
  "counted_events known_ips log =
     filter (\<lambda>e. ev_ip e \<notin> known_ips) (concat (map line_events (log_lines log)))"

definition count_event :: "event \<Rightarrow> counters \<Rightarrow> counters" where
  "count_event e c =
     \<lparr>user_counts = counter_incr (ev_user e) (user_counts c),
      ip_counts = counter_incr (ev_ip e) (ip_counts c),
      hourly_counts = counter_incr (ev_hour e) (hourly_counts c)\<rparr>"

text \<open>A pattern counts on a line when it matches with an address outside the allowlist.\<close>

definition pattern_counts :: "string set \<Rightarrow> string \<Rightarrow> regex \<Rightarrow> bool" where
  "pattern_counts known_ips line pat =
     (case search pat line of
        None \<Rightarrow> False
      | Some m \<Rightarrow> (case m ''ip'' of None \<Rightarrow> False | Some ip \<Rightarrow> ip \<notin> known_ips))"

definition total :: "counter \<Rightarrow> nat" where
  "total c = sum_list (map snd c)"

text \<open>The position at which a key is first seen in a sequence of keys.\<close>

definition first_seen :: "string list \<Rightarrow> string \<Rightarrow> nat" where
  "first_seen ks k = length (takeWhile (\<lambda>x. x \<noteq> k) ks)"

text \<open>The ranking of \<open>most_common\<close> over the keys \<open>ks\<close> counted: the higher count first,
  and of two equal counts the key first seen earlier.\<close>

definition ranks_before :: "string list \<Rightarrow> string \<times> nat \<Rightarrow> string \<times> nat \<Rightarrow> bool" where
  "ranks_before ks a b =
     (snd b < snd a \<or> (snd a = snd b \<and> first_seen ks (fst a) < first_seen ks (fst b)))"

text \<open>The groups that take part in every match of an expression.\<close>

fun sure_groups :: "regex \<Rightarrow> string set" where
  "sure_groups (Grp n a) = insert n (sure_groups a)"
| "sure_groups (Seq a b) = sure_groups a \<union> sure_groups b"
| "sure_groups (Alt a b) = sure_groups a \<inter> sure_groups b"
| "sure_groups _ = {}"

section \<open>Groups of a match\<close>

lemma plus_from_cont: "plus_from c s k = Some r \<Longrightarrow> \<exists>rest. k rest = Some r"
  by (induction s) (auto split: if_splits option.splits)

lemma rmatch_groups:
  "rmatch r s g k = Some res \<Longrightarrow>
     \<exists>rest g'. k rest g' = Some res \<and> dom g \<subseteq> dom g' \<and> sure_groups r \<subseteq> dom g'"
proof (induction r arbitrary: s g k res)
  case (Plus c)
  then show ?case using plus_from_cont[of c s "\<lambda>rest. k rest g" res] by auto
next
  case (Seq a b)
  from Seq.prems have "rmatch a s g (\<lambda>rest g'. rmatch b rest g' k) = Some res" by simp
  from Seq.IH(1)[OF this] obtain r1 g1 where
    1: "rmatch b r1 g1 k = Some res" "dom g \<subseteq> dom g1" "sure_groups a \<subseteq> dom g1" by blast
  from Seq.IH(2)[OF 1(1)] obtain r2 g2 where
    2: "k r2 g2 = Some res" "dom g1 \<subseteq> dom g2" "sure_groups b \<subseteq> dom g2" by blast
  have "dom g \<subseteq> dom g2" using 1(2) 2(2) by (rule order_trans)
  moreover have "sure_groups (Seq a b) \<subseteq> dom g2" using 1(3) 2(2) 2(3) by auto
  ultimately show ?case using 2(1) by blast
next
  case (Alt a b)
  show ?case
  proof (cases "rmatch a s g k")
    case None
    with Alt.prems have "rmatch b s g k = Some res" by simp
    from Alt.IH(2)[OF this] obtain r1 g1 where
      "k r1 g1 = Some res" "dom g \<subseteq> dom g1" "sure_groups b \<subseteq> dom g1" by blast
    then show ?thesis by (intro exI[of _ r1] exI[of _ g1]) auto
  next
    case (Some x)
    with Alt.prems have "rmatch a s g k = Some res" by simp
    from Alt.IH(1)[OF this] obtain r1 g1 where
      "k r1 g1 = Some res" "dom g \<subseteq> dom g1" "sure_groups a \<subseteq> dom g1" by blast
    then show ?thesis by (intro exI[of _ r1] exI[of _ g1]) auto
  qed
next
  case (Opt a)
  show ?case
  proof (cases "rmatch a s g k")
    case None
    with Opt.prems have "k s g = Some res" by simp
    then show ?thesis by (intro exI[of _ s] exI[of _ g]) auto
  next
    case (Some x)
    with Opt.prems have "rmatch a s g k = Some res" by simp
    from Opt.IH[OF this] obtain r1 g1 where
      "k r1 g1 = Some res" "dom g \<subseteq> dom g1" by blast
    then show ?thesis by (intro exI[of _ r1] exI[of _ g1]) auto
  qed
next
  case (Grp n a)
  from Grp.prems have
    "rmatch a s g (\<lambda>rest g'. k rest (g'(n \<mapsto> take (length s - length rest) s))) = Some res"
    by simp
  from Grp.IH[OF this] obtain r1 g1 where
    1: "k r1 (g1(n \<mapsto> take (length s - length r1) s)) = Some res" "dom g \<subseteq> dom g1"
       "sure_groups a \<subseteq> dom g1" by blast
  define g2 where "g2 = g1(n \<mapsto> take (length s - length r1) s)"
  have "k r1 g2 = Some res" using 1(1) by (simp add: g2_def)
  moreover have "dom g \<subseteq> dom g2" using 1(2) by (auto simp: g2_def)
  moreover have "sure_groups (Grp n a) \<subseteq> dom g2" using 1(3) by (auto simp: g2_def)
  ultimately show ?case by blast
qed (auto split: if_splits list.splits)

lemma search_groups: "search r s = Some m \<Longrightarrow> sure_groups r \<subseteq> dom m"
proof (induction s)
  case Nil
  then show ?case using rmatch_groups[of r "[]" Map.empty "\<lambda>rest g. Some g" m] by auto
next
  case (Cons x xs)
  show ?case
  proof (cases "rmatch r (x # xs) Map.empty (\<lambda>rest g. Some g)")
    case None
    with Cons show ?thesis by simp
  next
    case (Some g)
    with Cons.prems have "g = m" by simp
    with Some rmatch_groups[of r "x # xs" Map.empty "\<lambda>rest g. Some g" m] show ?thesis by auto
  qed
qed

lemma PATTERNS_groups:
  assumes "pat \<in> set PATTERNS" "search pat line = Some m"
  shows "\<exists>ip user. m ''ip'' = Some ip \<and> m ''user'' = Some user"
proof -
  have "{''ip'', ''user''} \<subseteq> sure_groups pat"
    using assms(1) by (auto simp: PATTERNS_def PAT_FAILED_def PAT_INVALID_def)
  with search_groups[OF assms(2)] show ?thesis by auto
qed

section \<open>Properties of counters and of the sort\<close>

subsection \<open>Counters\<close>

lemma counter_get_set: "counter_get (counter_set k v c) k' = (if k' = k then v else counter_get c k')"
  by (induction k v c rule: counter_set.induct) (auto simp: counter_get_def)

lemma keys_counter_set:
  "map fst (counter_set k v c) = (if k \<in> set (map fst c) then map fst c else map fst c @ [k])"
  by (induction k v c rule: counter_set.induct) auto

lemma keys_counter_incr:
  "map fst (counter_incr k c) = (if k \<in> set (map fst c) then map fst c else map fst c @ [k])"
  by (simp add: counter_incr_def keys_counter_set)

lemma counter_get_incr:
  "counter_get (counter_incr k c) k' = (if k' = k then counter_get c k + 1 else counter_get c k')"
  by (simp add: counter_incr_def counter_get_set)

lemma total_counter_set: "total (counter_set k v c) + counter_get c k = total c + v"
  by (induction k v c rule: counter_set.induct) (auto simp: total_def counter_get_def)

lemma total_counter_incr: "total (counter_incr k c) = total c + 1"
  using total_counter_set[of k "counter_get c k + 1" c] by (simp add: counter_incr_def)

lemma set_counter_set:
  "set (counter_set k v c) \<subseteq> insert (k, v) (set c)"
  by (induction k v c rule: counter_set.induct) auto

lemma positive_counter_incr:
  assumes "\<forall>(k', n) \<in> set c. 1 \<le> n"
  shows "\<forall>(k', n) \<in> set (counter_incr k c). 1 \<le> n"
  using assms set_counter_set[of k "counter_get c k + 1" c]
  by (auto simp: counter_incr_def)

lemma distinct_counter_incr:
  "distinct (map fst c) \<Longrightarrow> distinct (map fst (counter_incr k c))"
  by (simp add: keys_counter_incr)

lemma counter_entry_get:
  "distinct (map fst c) \<Longrightarrow> (k, n) \<in> set c \<Longrightarrow> counter_get c k = n"
  by (simp add: counter_get_def)

subsection \<open>Tallying a sequence of keys\<close>

lemma fold_incr_snoc: "fold counter_incr (ks @ [k]) c = counter_incr k (fold counter_incr ks c)"
  by simp

lemma key_set_counter_incr: "fst ` set (counter_incr k c) = insert k (fst ` set c)"
proof -
  have "set (map fst (counter_incr k c)) = insert k (set (map fst c))"
    unfolding keys_counter_incr by auto
  then show ?thesis by simp
qed

lemma keys_fold_incr: "fst ` set (fold counter_incr ks c) = fst ` set c \<union> set ks"
  by (induction ks arbitrary: c) (auto simp: key_set_counter_incr)

lemma distinct_fold_incr:
  "distinct (map fst c) \<Longrightarrow> distinct (map fst (fold counter_incr ks c))"
  by (induction ks arbitrary: c) (auto simp: distinct_counter_incr)

lemma get_fold_incr:
  "counter_get (fold counter_incr ks c) k = counter_get c k + count_list ks k"
  by (induction ks arbitrary: c) (auto simp: counter_get_incr)

lemma total_fold_incr: "total (fold counter_incr ks c) = total c + length ks"
  by (induction ks arbitrary: c) (auto simp: total_counter_incr)

lemma positive_fold_incr:
  "\<forall>(k', n) \<in> set c. 1 \<le> n \<Longrightarrow> \<forall>(k', n) \<in> set (fold counter_incr ks c). 1 \<le> n"
proof (induction ks arbitrary: c)
  case Nil
  then show ?case by simp
next
  case (Cons k ks)
  show ?case using Cons.IH[OF positive_counter_incr[OF Cons.prems]] by simp
qed

lemma set_tally:
  "set (fold counter_incr ks []) = (\<lambda>k. (k, count_list ks k)) ` set ks"
proof -
  let ?t = "fold counter_incr ks []"
  have d: "distinct (map fst ?t)" by (simp add: distinct_fold_incr)
  have keys: "fst ` set ?t = set ks" by (simp add: keys_fold_incr)
  have val: "n = count_list ks k" if "(k, n) \<in> set ?t" for k n
    using counter_entry_get[OF d that] get_fold_incr[of ks "[]" k] by (simp add: counter_get_def)
  show ?thesis
  proof (intro set_eqI iffI)
    fix e assume e: "e \<in> set ?t"
    obtain k n where kn: "e = (k, n)" by (cases e)
    with e val have "n = count_list ks k" by simp
    moreover from e kn keys have "k \<in> set ks" by force
    ultimately show "e \<in> (\<lambda>k. (k, count_list ks k)) ` set ks" using kn by simp
  next
    fix e assume "e \<in> (\<lambda>k. (k, count_list ks k)) ` set ks"
    then obtain k where k: "k \<in> set ks" "e = (k, count_list ks k)" by auto
    with keys obtain n where n: "(k, n) \<in> set ?t" by force
    with val k show "e \<in> set ?t" by simp
  qed
qed

lemma first_seen_snoc_old: "a \<in> set ks \<Longrightarrow> first_seen (ks @ [k]) a = first_seen ks a"
  by (simp add: first_seen_def takeWhile_append1)

lemma first_seen_snoc_new:
  assumes "k \<notin> set ks"
  shows "first_seen (ks @ [k]) k = length ks"
proof -
  have "takeWhile (\<lambda>x. x \<noteq> k) (ks @ [k]) = ks @ takeWhile (\<lambda>x. x \<noteq> k) [k]"
    by (rule takeWhile_append2) (use assms in auto)
  then show ?thesis by (simp add: first_seen_def)
qed

lemma first_seen_less: "a \<in> set ks \<Longrightarrow> first_seen ks a < length ks"
  unfolding first_seen_def by (induction ks) auto

lemma keys_tally_first_seen:
  "sorted_wrt (\<lambda>a b. first_seen ks a < first_seen ks b) (map fst (fold counter_incr ks []))"
proof (induction ks rule: rev_induct)
  case Nil
  then show ?case by simp
next
  case (snoc k ks)
  let ?K = "map fst (fold counter_incr ks [])"
  have K: "set ?K = set ks" by (simp add: keys_fold_incr)
  have old: "sorted_wrt (\<lambda>a b. first_seen (ks @ [k]) a < first_seen (ks @ [k]) b) ?K"
    using snoc.IH
  proof (rule sorted_wrt_mono_rel[rotated])
    fix a b assume "a \<in> set ?K" "b \<in> set ?K" "first_seen ks a < first_seen ks b"
    then show "first_seen (ks @ [k]) a < first_seen (ks @ [k]) b"
      unfolding K by (simp add: first_seen_snoc_old)
  qed
  show ?case
  proof (cases "k \<in> set ks")
    case True
    with old K show ?thesis by (simp add: keys_counter_incr)
  next
    case False
    have "first_seen (ks @ [k]) a < first_seen (ks @ [k]) k" if "a \<in> set ?K" for a
      using that K False by (simp add: first_seen_snoc_old first_seen_snoc_new first_seen_less)
    with old False K show ?thesis by (simp add: keys_counter_incr sorted_wrt_append)
  qed
qed

subsection \<open>The stable descending sort\<close>

lemma insort_key_ranked:
  fixes f :: "'a \<Rightarrow> int"
  assumes "sorted_wrt (\<lambda>a b. f a < f b \<or> (f a = f b \<and> R a b)) ys" "\<forall>y \<in> set ys. R x y"
  shows "sorted_wrt (\<lambda>a b. f a < f b \<or> (f a = f b \<and> R a b)) (insort_key f x ys)"
  using assms
proof (induction ys)
  case Nil
  then show ?case by simp
next
  case (Cons y ys)
  show ?case
  proof (cases "f x \<le> f y")
    case True
    have "f x < f z \<or> (f x = f z \<and> R x z)" if "z \<in> set (y # ys)" for z
    proof -
      have "f y \<le> f z" using that Cons.prems(1) by auto
      with True Cons.prems(2) that show ?thesis by auto
    qed
    with True Cons.prems(1) show ?thesis by simp
  next
    case False
    have "sorted_wrt (\<lambda>a b. f a < f b \<or> (f a = f b \<and> R a b)) (insort_key f x ys)"
      using Cons by simp
    moreover have "f y < f z \<or> (f y = f z \<and> R y z)" if "z \<in> set (insort_key f x ys)" for z
      using that False Cons.prems(1) by (auto simp: set_insort_key)
    ultimately show ?thesis using False by simp
  qed
qed

lemma sort_key_ranked:
  fixes f :: "'a \<Rightarrow> int"
  assumes "sorted_wrt R xs"
  shows "sorted_wrt (\<lambda>a b. f a < f b \<or> (f a = f b \<and> R a b)) (sort_key f xs)"
  using assms
proof (induction xs)
  case Nil
  then show ?case by simp
next
  case (Cons x xs)
  then show ?case by (simp add: insort_key_ranked)
qed

lemma most_common_ranked:
  "\<exists>full. most_common n (fold counter_incr ks []) = take n full
     \<and> set full = (\<lambda>k. (k, count_list ks k)) ` set ks
     \<and> distinct (map fst full)
     \<and> sorted_wrt (ranks_before ks) full"
proof -
  let ?t = "fold counter_incr ks []"
  let ?f = "\<lambda>(k, cnt). - int cnt"
  let ?full = "sort_key ?f ?t"
  have "sorted_wrt (\<lambda>a b. first_seen ks (fst a) < first_seen ks (fst b)) ?t"
    using keys_tally_first_seen[of ks] by (simp add: sorted_wrt_map)
  from sort_key_ranked[OF this, of ?f]
  have "sorted_wrt (ranks_before ks) ?full"
    by (rule sorted_wrt_mono_rel[rotated]) (auto simp: ranks_before_def split: prod.splits)
  moreover have "set ?full = (\<lambda>k. (k, count_list ks k)) ` set ks" by (simp add: set_tally)
  moreover have "distinct (map fst ?full)"
  proof -
    have "distinct (map fst ?t)" by (simp add: distinct_fold_incr)
    moreover have "mset (map fst ?full) = mset (map fst ?t)" by simp
    ultimately show ?thesis by (metis mset_eq_imp_distinct_iff)
  qed
  ultimately show ?thesis unfolding most_common_def by blast
qed

lemma sum_insort_key:
  fixes xs :: "('a \<times> nat) list"
  shows "sum_list (map snd (insort_key f x xs)) = snd x + sum_list (map snd xs)"
  by (induction xs) (auto simp: ac_simps)

lemma total_sort_key: "total (sort_key f c) = total c"
  by (induction c) (auto simp: total_def sum_insort_key)

lemma total_take: "total (take n c) \<le> total c"
proof -
  have "total c = total (take n c) + total (drop n c)"
    unfolding total_def by (metis append_take_drop_id map_append sum_list_append)
  then show ?thesis by simp
qed

lemma total_most_common: "total (most_common n c) \<le> total c"
  unfolding most_common_def using total_take[of n "sort_key (\<lambda>(k, cnt). - int cnt) c"]
  by (simp add: total_sort_key)

lemma sorted_fst: "sorted (xs :: (string \<times> nat) list) \<Longrightarrow> sorted (map fst xs)"
  by (induction xs) (auto simp: less_eq_prod_def)

section \<open>The loops as a fold over events\<close>

lemma count_event_fields:
  "user_counts (count_event e c) = counter_incr (ev_user e) (user_counts c)"
  "ip_counts (count_event e c) = counter_incr (ev_ip e) (ip_counts c)"
  "hourly_counts (count_event e c) = counter_incr (ev_hour e) (hourly_counts c)"
  by (simp_all add: count_event_def)

lemma apply_pattern_events:
  "apply_pattern known line hl pat c =
     fold count_event (filter (\<lambda>e. ev_ip e \<notin> known) (pattern_event hl line pat)) c"
  by (auto simp: apply_pattern_def pattern_event_def count_event_def ev_ip_def ev_user_def
      ev_hour_def split: option.splits)

lemma fold_apply_pattern_events:
  "fold (apply_pattern known line hl) pats c =
     fold count_event (filter (\<lambda>e. ev_ip e \<notin> known) (concat (map (pattern_event hl line) pats))) c"
  by (induction pats arbitrary: c) (simp_all add: apply_pattern_events)

lemma process_line_events:
  "process_line known line c =
     fold count_event (filter (\<lambda>e. ev_ip e \<notin> known) (line_events line)) c"
  by (simp add: process_line_def line_events_def hour_label_of_def Let_def
      fold_apply_pattern_events split: sum.splits)

lemma read_loop_events:
  "fst (read_loop known rs c) =
     fold count_event (filter (\<lambda>e. ev_ip e \<notin> known) (concat (map line_events (lines_read rs)))) c"
  by (induction known rs c rule: read_loop.induct) (simp_all add: process_line_events)

lemma final_counts_events:
  "final_counts known log = fold count_event (counted_events known log) no_counts"
  by (cases log) (simp_all add: final_counts_def counted_events_def log_lines_def read_loop_events)

lemma fold_count_event_fields:
  "user_counts (fold count_event evs c) = fold counter_incr (map ev_user evs) (user_counts c)"
  "ip_counts (fold count_event evs c) = fold counter_incr (map ev_ip evs) (ip_counts c)"
  "hourly_counts (fold count_event evs c) = fold counter_incr (map ev_hour evs) (hourly_counts c)"
  by (induction evs arbitrary: c) (simp_all add: count_event_fields)

lemma final_user_counts:
  "user_counts (final_counts known log) = fold counter_incr (map ev_user (counted_events known log)) []"
  by (simp add: final_counts_events fold_count_event_fields no_counts_def)

lemma final_ip_counts:
  "ip_counts (final_counts known log) = fold counter_incr (map ev_ip (counted_events known log)) []"
  by (simp add: final_counts_events fold_count_event_fields no_counts_def)

lemma final_hourly_counts:
  "hourly_counts (final_counts known log) = fold counter_incr (map ev_hour (counted_events known log)) []"
  by (simp add: final_counts_events fold_count_event_fields no_counts_def)

lemma snapshot_fields:
  "top_users (compute_stats out log) = most_common 10 (user_counts (final_counts (get_known_ips out) log))"
  "top_ips (compute_stats out log) = most_common 10 (ip_counts (final_counts (get_known_ips out) log))"
  "hourly (compute_stats out log) = sorted_items (hourly_counts (final_counts (get_known_ips out) log))"
  by (simp_all add: compute_stats_def snapshot_def)

lemma set_most_common: "set (most_common n c) \<subseteq> set c"
  unfolding most_common_def by (metis set_sort set_take_subset)

lemma set_sorted_items: "set (sorted_items c) = set c"
  by (simp add: sorted_items_def)

lemma count_list_filter: "count_list (map f xs) k = length (filter (\<lambda>x. f x = k) xs)"
  by (induction xs) auto

lemma pattern_event_counts:
  assumes "pat \<in> set PATTERNS"
  shows "length (filter (\<lambda>e. ev_ip e \<notin> known) (pattern_event hl line pat)) =
           (if pattern_counts known line pat then 1 else 0)"
proof (cases "search pat line")
  case None
  then show ?thesis by (simp add: pattern_event_def pattern_counts_def)
next
  case (Some m)
  from PATTERNS_groups[OF assms Some] obtain ip user where
    "m ''ip'' = Some ip" "m ''user'' = Some user" by blast
  with Some show ?thesis by (simp add: pattern_event_def pattern_counts_def ev_ip_def)
qed

lemma pattern_event_hour: "e \<in> set (pattern_event hl line pat) \<Longrightarrow> ev_hour e = hl"
  by (auto simp: pattern_event_def ev_hour_def split: option.splits)

lemma line_events_counts:
  assumes "hour_label_of line = Some hl"
  shows "length (filter (\<lambda>e. ev_ip e \<notin> known) (line_events line)) =
           length (filter (pattern_counts known line) PATTERNS)"
proof -
  have "length (filter (\<lambda>e. ev_ip e \<notin> known) (concat (map (pattern_event hl line) pats))) =
          length (filter (pattern_counts known line) pats)" if "set pats \<subseteq> set PATTERNS" for pats
    using that by (induction pats) (simp_all add: pattern_event_counts)
  from this[of PATTERNS] assms show ?thesis by (simp add: line_events_def)
qed

lemma line_events_hour:
  assumes "hour_label_of line = Some hl" "e \<in> set (line_events line)"
  shows "ev_hour e = hl"
  using assms by (auto simp: line_events_def dest: pattern_event_hour)

section \<open>Lemmas for the claims\<close>

lemma tally_entry:
  assumes "(k, n) \<in> set (fold counter_incr (map f evs) [])"
  shows "k \<in> f ` set evs \<and> n = length (filter (\<lambda>e. f e = k) evs)"
  using assms by (auto simp: set_tally count_list_filter)

lemma strptime_fields:
  assumes "strptime s = Inr dt"
  shows "year dt = 1900 \<and> month dt \<le> 12 \<and> day dt \<le> 31 \<and> hour dt \<le> 23"
proof -
  from assms obtain m d H M S where "datetime_new 1900 m d H M S = Inr dt"
    by (auto simp: strptime_def split: option.splits if_splits prod.splits)
  then show ?thesis
    by (auto simp: datetime_new_def days_in_month_def split: if_splits)
qed

lemma dec_1900: "dec 1900 = ''1900''"
  by (simp add: dec.simps digit_chr_def)

lemma length_dec_small: "n < 10 \<Longrightarrow> length (dec n) = 1"
  by (simp add: dec.simps)

lemma length_pad2: "n < 100 \<Longrightarrow> length (pad2 n) = 2"
  by (simp add: pad2_def dec.simps[of n] length_dec_small)

lemma hour_label_of_form:
  assumes "hour_label_of line = Some l"
  shows "\<exists>dt. strptime (join_sp (take 3 (split line))) = Inr dt \<and> year dt = 1900
           \<and> l = ''1900-'' @ pad2 (month dt) @ ''-'' @ pad2 (day dt) @ '' '' @ pad2 (hour dt) @ '':00''
           \<and> length l = 16"
proof -
  from assms obtain dt where dt: "strptime (join_sp (take 3 (split line))) = Inr dt"
    and l: "l = strftime_hour dt"
    by (auto simp: hour_label_of_def Let_def split: if_splits sum.splits)
  from strptime_fields[OF dt] have f: "year dt = 1900" "month dt < 100" "day dt < 100" "hour dt < 100"
    by auto
  have "l = ''1900-'' @ pad2 (month dt) @ ''-'' @ pad2 (day dt) @ '' '' @ pad2 (hour dt) @ '':00''"
    using l f(1) by (simp add: strftime_hour_def dec_1900)
  moreover from this have "length l = 16" using f by (simp add: length_pad2)
  ultimately show ?thesis using dt f(1) by blast
qed

lemma line_events_label:
  assumes "e \<in> set (line_events line)"
  shows "hour_label_of line = Some (ev_hour e)"
proof (cases "hour_label_of line")
  case None
  with assms show ?thesis by (simp add: line_events_def)
next
  case (Some hl)
  with line_events_hour[OF Some assms] show ?thesis by simp
qed

lemma counted_ip_unknown: "e \<in> set (counted_events known log) \<Longrightarrow> ev_ip e \<notin> known"
  by (simp add: counted_events_def)

lemma filter_counted:
  "filter P (counted_events known log) =
     filter (\<lambda>e. P e \<and> ev_ip e \<notin> known) (concat (map line_events (log_lines log)))"
  by (simp add: counted_events_def conj_commute)

lemma total_Nil: "total [] = 0"
  by (simp add: total_def)

lemma pattern_event_match:
  assumes "map_option (\<lambda>m. (m ''user'', m ''ip'')) (search pat line) = Some (Some user, Some ip)"
  shows "pattern_event hl line pat = [(hl, user, ip)]"
  using assms by (auto simp: pattern_event_def split: option.splits)

lemma pattern_event_no_match: "search pat line = None \<Longrightarrow> pattern_event hl line pat = []"
  by (simp add: pattern_event_def)

lemma snapshot_single_event:
  "snapshot (fold count_event [(hl, user, ip)] no_counts) =
     \<lparr>top_users = [(user, 1)], top_ips = [(ip, 1)], hourly = [(hl, 1)]\<rparr>"
  by (simp add: snapshot_def count_event_def no_counts_def counter_incr_def counter_get_def
      most_common_def sorted_items_def ev_user_def ev_ip_def ev_hour_def)

lemma read_loop_stops_at_error:
  "read_loop known (map Line ls @ ReadError e # rest) c =
     (fst (read_loop known (map Line ls) c), Some e)"
  by (induction ls arbitrary: c) simp_all

section \<open>The claims\<close>

text \<open>
  Claim C1, as amended. The patterns are applied in their fixed order and every pattern
  that matches the line contributes, not only the first: on a line whose timestamp parses,
  each pattern that matches with an address outside the allowlist adds one to a user
  count, one to an address count and one to the count of the line's hour. A line that
  matches both patterns is counted twice.
\<close>
theorem C1_each_matching_pattern_counts:
  assumes "hour_label_of line = Some hl"
  shows "total (user_counts (process_line known line c)) =
           total (user_counts c) + length (filter (pattern_counts known line) PATTERNS)
       \<and> total (ip_counts (process_line known line c)) =
           total (ip_counts c) + length (filter (pattern_counts known line) PATTERNS)
       \<and> counter_get (hourly_counts (process_line known line c)) hl =
           counter_get (hourly_counts c) hl + length (filter (pattern_counts known line) PATTERNS)"
proof -
  let ?evs = "filter (\<lambda>e. ev_ip e \<notin> known) (line_events line)"
  have n: "length ?evs = length (filter (pattern_counts known line) PATTERNS)"
    by (rule line_events_counts[OF assms])
  have p: "process_line known line c = fold count_event ?evs c" by (rule process_line_events)
  have "filter (\<lambda>e. ev_hour e = hl) ?evs = ?evs"
    using line_events_hour[OF assms] by (intro filter_True) auto
  then have "count_list (map ev_hour ?evs) hl = length ?evs" by (simp add: count_list_filter)
  then show ?thesis
    unfolding p fold_count_event_fields total_fold_incr get_fold_incr using n by simp
qed

theorem C1_two_patterns_witness:
  "counter_get (hourly_counts (process_line {}
      ''Jun 22 08:15:20 host sshd: Failed password for root from 10.0.0.5 Invalid user bob from 10.0.0.6''
      no_counts)) ''1900-06-22 08:00'' =
    counter_get (hourly_counts no_counts) ''1900-06-22 08:00'' + length (filter (pattern_counts {}
      ''Jun 22 08:15:20 host sshd: Failed password for root from 10.0.0.5 Invalid user bob from 10.0.0.6'')
      PATTERNS)
   \<and> length (filter (pattern_counts {}
      ''Jun 22 08:15:20 host sshd: Failed password for root from 10.0.0.5 Invalid user bob from 10.0.0.6'')
      PATTERNS) = 2"
proof -
  have h: "hour_label_of ''Jun 22 08:15:20 host sshd: Failed password for root from 10.0.0.5 Invalid user bob from 10.0.0.6''
     = Some ''1900-06-22 08:00''"
    by code_simp
  have n: "length (filter (pattern_counts {}
      ''Jun 22 08:15:20 host sshd: Failed password for root from 10.0.0.5 Invalid user bob from 10.0.0.6'')
      PATTERNS) = 2"
    by code_simp
  from conjunct2[OF conjunct2[OF C1_each_matching_pattern_counts[OF h, of "{}" no_counts]]] n
  show ?thesis by (rule conjI)
qed

text \<open>The claim as stated fails: this line matches both patterns, each of them
  contributes, and the hour of the line is counted twice.\<close>

theorem C1_both_patterns_counterexample:
  "search PAT_FAILED ''Jun 22 08:15:20 host sshd: Failed password for root from 10.0.0.5 Invalid user bob from 10.0.0.6'' \<noteq> None
   \<and> search PAT_INVALID ''Jun 22 08:15:20 host sshd: Failed password for root from 10.0.0.5 Invalid user bob from 10.0.0.6'' \<noteq> None
   \<and> compute_stats (Inl FileNotFoundError)
     (Opened [Line ''Jun 22 08:15:20 host sshd: Failed password for root from 10.0.0.5 Invalid user bob from 10.0.0.6'']) =
   \<lparr>top_users = [(''root'', 1), (''bob'', 1)], top_ips = [(''10.0.0.5'', 1), (''10.0.0.6'', 1)],
    hourly = [(''1900-06-22 08:00'', 2)]\<rparr>"
  by code_simp

text \<open>
  Claim C2, as amended. The hour label does not carry the current year: the aggregation
  reads no clock, and \<open>strptime\<close> gives a timestamp without a year the year 1900. Every
  label of the hourly view comes from a line read whose first three tokens parse, and is
  \<open>1900-MM-DD HH:00\<close> for the month, day and hour parsed.
\<close>
theorem C2_hour_label_has_year_1900:
  assumes "(l, n) \<in> set (hourly (compute_stats out log))"
  shows "\<exists>line dt. line \<in> set (log_lines log)
           \<and> strptime (join_sp (take 3 (split line))) = Inr dt \<and> year dt = 1900
           \<and> l = ''1900-'' @ pad2 (month dt) @ ''-'' @ pad2 (day dt) @ '' '' @ pad2 (hour dt) @ '':00''
           \<and> length l = 16"
proof -
  from assms have "(l, n) \<in> set (fold counter_incr (map ev_hour (counted_events (get_known_ips out) log)) [])"
    by (simp add: snapshot_fields set_sorted_items final_hourly_counts)
  from tally_entry[OF this] obtain e where
    e: "e \<in> set (counted_events (get_known_ips out) log)" "ev_hour e = l" by auto
  from e(1) obtain line where line: "line \<in> set (log_lines log)" "e \<in> set (line_events line)"
    by (auto simp: counted_events_def)
  from line_events_label[OF line(2)] e(2) have "hour_label_of line = Some l" by simp
  from hour_label_of_form[OF this] line(1) show ?thesis by blast
qed

theorem C2_year_1900_witness:
  "\<exists>line dt. line \<in> set (log_lines (Opened [Line ''Jun 22 08:15:20 host sshd: Invalid user admin from 10.0.0.9'']))
           \<and> strptime (join_sp (take 3 (split line))) = Inr dt \<and> year dt = 1900
           \<and> ''1900-06-22 08:00'' = ''1900-'' @ pad2 (month dt) @ ''-'' @ pad2 (day dt) @ '' '' @ pad2 (hour dt) @ '':00''
           \<and> length ''1900-06-22 08:00'' = 16"
proof -
  have h: "(''1900-06-22 08:00'', 1) \<in> set (hourly (compute_stats (Inl FileNotFoundError)
      (Opened [Line ''Jun 22 08:15:20 host sshd: Invalid user admin from 10.0.0.9''])))"
    by code_simp
  show ?thesis by (rule C2_hour_label_has_year_1900[OF h])
qed

text \<open>The claim as stated fails: the label of the example of the specification has the
  year 1900, not the year of any clock.\<close>

theorem C2_year_counterexample:
  "hourly (compute_stats (Inl FileNotFoundError)
     (Opened [Line ''Jun 22 08:15:20 host sshd: Failed password for root from 10.0.0.5 port 2222''])) =
     [(''1900-06-22 08:00'', 1)]
   \<and> hourly (compute_stats (Inl FileNotFoundError)
     (Opened [Line ''Jun 22 08:15:20 host sshd: Failed password for root from 10.0.0.5 port 2222''])) \<noteq>
     [(''2024-06-22 08:00'', 1)]"
  by code_simp

text \<open>
  Claim C3, as amended. The aggregation is not all-or-nothing. When \<open>open\<close> fails, the
  three views are empty. When reading fails after some lines have been read, the
  exception is dropped and the snapshot is the one of the lines read before the failure:
  the same as for a log that ends there.
\<close>

theorem C3_prefix_kept_on_read_failure:
  "compute_stats out (OpenError e) = \<lparr>top_users = [], top_ips = [], hourly = []\<rparr>
   \<and> compute_stats out (Opened (map Line ls @ ReadError e # rest)) =
       compute_stats out (Opened (map Line ls))"
  by (simp add: compute_stats_def final_counts_def read_loop_stops_at_error snapshot_def
      no_counts_def most_common_def sorted_items_def)

text \<open>The claim as stated fails: one line is read, then reading raises, and the snapshot
  holds the line read instead of being empty.\<close>

theorem C3_partial_fold_counterexample:
  "compute_stats (Inl FileNotFoundError)
     (Opened [Line ''Jun 22 08:15:20 host sshd: Failed password for root from 10.0.0.5 port 2222'',
              ReadError OSError]) =
   \<lparr>top_users = [(''root'', 1)], top_ips = [(''10.0.0.5'', 1)],
    hourly = [(''1900-06-22 08:00'', 1)]\<rparr>"
  by code_simp

text \<open>
  Claim C4. No address of the allowlist appears in the top-addresses view, and events
  whose address is in the allowlist contribute to no view: every count listed, in each of
  the three views, is the number of events of its key whose address is outside the
  allowlist.
\<close>
theorem C4_allowlisted_events_never_counted:
  "(\<forall>(ip, n) \<in> set (top_ips (compute_stats out log)).
      ip \<notin> get_known_ips out
      \<and> n = length (filter (\<lambda>e. ev_ip e = ip) (concat (map line_events (log_lines log)))))
   \<and> (\<forall>(u, n) \<in> set (top_users (compute_stats out log)).
      n = length (filter (\<lambda>e. ev_user e = u \<and> ev_ip e \<notin> get_known_ips out)
                    (concat (map line_events (log_lines log)))))
   \<and> (\<forall>(h, n) \<in> set (hourly (compute_stats out log)).
      n = length (filter (\<lambda>e. ev_hour e = h \<and> ev_ip e \<notin> get_known_ips out)
                    (concat (map line_events (log_lines log)))))"
proof (intro conjI ballI)
  fix x assume x: "x \<in> set (top_ips (compute_stats out log))"
  obtain ip n where xn: "x = (ip, n)" by (cases x)
  from x xn set_most_common have
    "(ip, n) \<in> set (fold counter_incr (map ev_ip (counted_events (get_known_ips out) log)) [])"
    unfolding snapshot_fields final_ip_counts by blast
  from tally_entry[OF this] have
    m: "ip \<in> ev_ip ` set (counted_events (get_known_ips out) log)"
    and n: "n = length (filter (\<lambda>e. ev_ip e = ip) (counted_events (get_known_ips out) log))"
    by auto
  from m counted_ip_unknown have u: "ip \<notin> get_known_ips out" by auto
  have "filter (\<lambda>e. ev_ip e = ip \<and> ev_ip e \<notin> get_known_ips out) (concat (map line_events (log_lines log)))
      = filter (\<lambda>e. ev_ip e = ip) (concat (map line_events (log_lines log)))"
    using u by (intro filter_cong) auto
  with n u xn show "case x of (ip, n) \<Rightarrow> ip \<notin> get_known_ips out
      \<and> n = length (filter (\<lambda>e. ev_ip e = ip) (concat (map line_events (log_lines log))))"
    by (simp add: filter_counted)
next
  fix x assume x: "x \<in> set (top_users (compute_stats out log))"
  obtain u n where xn: "x = (u, n)" by (cases x)
  from x xn set_most_common have
    "(u, n) \<in> set (fold counter_incr (map ev_user (counted_events (get_known_ips out) log)) [])"
    unfolding snapshot_fields final_user_counts by blast
  from tally_entry[OF this] xn show "case x of (u, n) \<Rightarrow>
      n = length (filter (\<lambda>e. ev_user e = u \<and> ev_ip e \<notin> get_known_ips out)
                    (concat (map line_events (log_lines log))))"
    by (simp add: filter_counted)
next
  fix x assume x: "x \<in> set (hourly (compute_stats out log))"
  obtain h n where xn: "x = (h, n)" by (cases x)
  from x xn have
    "(h, n) \<in> set (fold counter_incr (map ev_hour (counted_events (get_known_ips out) log)) [])"
    by (simp add: snapshot_fields final_hourly_counts set_sorted_items)
  from tally_entry[OF this] xn show "case x of (h, n) \<Rightarrow>
      n = length (filter (\<lambda>e. ev_hour e = h \<and> ev_ip e \<notin> get_known_ips out)
                    (concat (map line_events (log_lines log))))"
    by (simp add: filter_counted)
qed

theorem C4_allowlist_witness:
  "(''10.0.0.6'', 1) \<in> set (top_ips (compute_stats (Inr ''root pts/0 10.0.0.5 Mon Jun 22 08:00'')
      (Opened [Line ''Jun 22 08:15:20 host sshd: Failed password for root from 10.0.0.5 port 2222'',
               Line ''Jun 22 09:15:20 host sshd: Invalid user bob from 10.0.0.6'',
               Line ''Jun 22 10:15:20 host sshd: Invalid user alice from 10.0.0.5''])))
   \<and> ''10.0.0.6'' \<notin> get_known_ips (Inr ''root pts/0 10.0.0.5 Mon Jun 22 08:00'')
   \<and> (1::nat) = length (filter (\<lambda>e. ev_ip e = ''10.0.0.6'') (concat (map line_events (log_lines
      (Opened [Line ''Jun 22 08:15:20 host sshd: Failed password for root from 10.0.0.5 port 2222'',
               Line ''Jun 22 09:15:20 host sshd: Invalid user bob from 10.0.0.6'',
               Line ''Jun 22 10:15:20 host sshd: Invalid user alice from 10.0.0.5''])))))
   \<and> top_ips (compute_stats (Inr ''root pts/0 10.0.0.5 Mon Jun 22 08:00'')
      (Opened [Line ''Jun 22 08:15:20 host sshd: Failed password for root from 10.0.0.5 port 2222'',
               Line ''Jun 22 09:15:20 host sshd: Invalid user bob from 10.0.0.6'',
               Line ''Jun 22 10:15:20 host sshd: Invalid user alice from 10.0.0.5''])) = [(''10.0.0.6'', 1)]"
proof -
  have t: "top_ips (compute_stats (Inr ''root pts/0 10.0.0.5 Mon Jun 22 08:00'')
      (Opened [Line ''Jun 22 08:15:20 host sshd: Failed password for root from 10.0.0.5 port 2222'',
               Line ''Jun 22 09:15:20 host sshd: Invalid user bob from 10.0.0.6'',
               Line ''Jun 22 10:15:20 host sshd: Invalid user alice from 10.0.0.5''])) = [(''10.0.0.6'', 1)]"
    by code_simp
  then have m: "(''10.0.0.6'', 1) \<in> set (top_ips (compute_stats (Inr ''root pts/0 10.0.0.5 Mon Jun 22 08:00'')
      (Opened [Line ''Jun 22 08:15:20 host sshd: Failed password for root from 10.0.0.5 port 2222'',
               Line ''Jun 22 09:15:20 host sshd: Invalid user bob from 10.0.0.6'',
               Line ''Jun 22 10:15:20 host sshd: Invalid user alice from 10.0.0.5''])))"
    by simp
  from bspec[OF conjunct1[OF C4_allowlisted_events_never_counted] m] m t
  show ?thesis by simp
qed

text \<open>
  Claim C5, as amended. A log of exactly one line whose timestamp \<open>strptime\<close> accepts,
  that exactly one of the two patterns matches, with an address outside the allowlist,
  yields one user, one address and one hour, each with count 1. (A line that both
  patterns match yields two events.)
\<close>
theorem C5_single_match_line:
  assumes "hour_label_of line = Some hl"
    and "filter (\<lambda>p. search p line \<noteq> None) PATTERNS = [pat]"
    and "map_option (\<lambda>m. (m ''user'', m ''ip'')) (search pat line) = Some (Some user, Some ip)"
    and "ip \<notin> get_known_ips out"
  shows "compute_stats out (Opened [Line line]) =
           \<lparr>top_users = [(user, 1)], top_ips = [(ip, 1)], hourly = [(hl, 1)]\<rparr>"
proof -
  have ev: "line_events line = [(hl, user, ip)]"
  proof (cases "search PAT_FAILED line")
    case None
    with assms(2) have "pat = PAT_INVALID" by (simp add: PATTERNS_def split: if_splits)
    with assms(1,3) None show ?thesis
      by (simp add: line_events_def PATTERNS_def pattern_event_no_match pattern_event_match)
  next
    case (Some m)
    with assms(2) have "pat = PAT_FAILED" "search PAT_INVALID line = None"
      by (simp_all add: PATTERNS_def split: if_splits)
    with assms(1,3) show ?thesis
      by (simp add: line_events_def PATTERNS_def pattern_event_no_match pattern_event_match)
  qed
  have "counted_events (get_known_ips out) (Opened [Line line]) = [(hl, user, ip)]"
    using ev assms(4) by (simp add: counted_events_def log_lines_def ev_ip_def)
  then show ?thesis
    unfolding compute_stats_def final_counts_events by (simp only: snapshot_single_event)
qed

theorem C5_single_match_witness:
  "compute_stats (Inr ''root pts/0 10.0.0.9 Mon Jun 22 08:00'')
     (Opened [Line ''Jun 22 08:15:20 host sshd: Failed password for root from 10.0.0.5 port 2222'']) =
   \<lparr>top_users = [(''root'', 1)], top_ips = [(''10.0.0.5'', 1)], hourly = [(''1900-06-22 08:00'', 1)]\<rparr>"
proof -
  have h1: "hour_label_of ''Jun 22 08:15:20 host sshd: Failed password for root from 10.0.0.5 port 2222''
      = Some ''1900-06-22 08:00''"
    by code_simp
  have h2: "filter (\<lambda>p. search p ''Jun 22 08:15:20 host sshd: Failed password for root from 10.0.0.5 port 2222'' \<noteq> None)
      PATTERNS = [PAT_FAILED]"
    by code_simp
  have h3: "map_option (\<lambda>m. (m ''user'', m ''ip''))
      (search PAT_FAILED ''Jun 22 08:15:20 host sshd: Failed password for root from 10.0.0.5 port 2222'')
      = Some (Some ''root'', Some ''10.0.0.5'')"
    by code_simp
  have h4: "''10.0.0.5'' \<notin> get_known_ips (Inr ''root pts/0 10.0.0.9 Mon Jun 22 08:00'')"
    by code_simp
  show ?thesis by (rule C5_single_match_line[OF h1 h2 h3 h4])
qed

text \<open>The claim as stated fails: this line matches a failure pattern, has a valid
  timestamp and an address outside the allowlist, and its counts are 2.\<close>

theorem C5_double_count_counterexample:
  "compute_stats (Inl FileNotFoundError)
     (Opened [Line ''Jun 22 08:15:20 host sshd: Invalid user root from 10.0.0.5 Failed password for root from 10.0.0.5 port 2222'']) =
   \<lparr>top_users = [(''root'', 2)], top_ips = [(''10.0.0.5'', 2)],
    hourly = [(''1900-06-22 08:00'', 2)]\<rparr>"
  by code_simp

text \<open>
  Claim C6. The top-users and top-addresses views have at most 10 entries. The hourly
  view is not truncated: it has exactly one entry for each hour of a counted event. Its
  entries are in ascending order of the hour label.
\<close>
theorem C6_top_ten_and_sorted_hours:
  "length (top_users (compute_stats out log)) \<le> 10
   \<and> length (top_ips (compute_stats out log)) \<le> 10
   \<and> sorted (map fst (hourly (compute_stats out log)))
   \<and> distinct (map fst (hourly (compute_stats out log)))
   \<and> fst ` set (hourly (compute_stats out log)) = ev_hour ` set (counted_events (get_known_ips out) log)
   \<and> length (hourly (compute_stats out log)) = card (ev_hour ` set (counted_events (get_known_ips out) log))"
proof -
  let ?evs = "counted_events (get_known_ips out) log"
  let ?c = "fold counter_incr (map ev_hour ?evs) []"
  have h: "hourly (compute_stats out log) = sort ?c"
    by (simp add: snapshot_fields final_hourly_counts sorted_items_def)
  have s: "sorted (map fst (sort ?c))" by (rule sorted_fst) simp
  have "distinct (map fst ?c)" by (simp add: distinct_fold_incr)
  moreover have "mset (map fst (sort ?c)) = mset (map fst ?c)" by simp
  ultimately have d: "distinct (map fst (sort ?c))" by (metis mset_eq_imp_distinct_iff)
  have k: "fst ` set (sort ?c) = ev_hour ` set ?evs" by (simp add: keys_fold_incr)
  have "length (sort ?c) = length (map fst (sort ?c))" by simp
  also have "\<dots> = card (set (map fst (sort ?c)))" using d by (simp only: distinct_card)
  also have "\<dots> = card (ev_hour ` set ?evs)" using k by simp
  finally have l: "length (sort ?c) = card (ev_hour ` set ?evs)" .
  show ?thesis
    unfolding h using s d k l by (simp add: snapshot_fields most_common_def)
qed

text \<open>
  Claim C7. The snapshot is determined by the lines read from the log and by the
  allowlist: two runs that read the same lines under the same allowlist return equal
  snapshots, whatever else differs (the text of the session history, what follows a
  read failure). The aggregation reads no clock and keeps no state between runs.
\<close>

theorem C7_snapshot_determined_by_log_and_allowlist:
  assumes "get_known_ips out1 = get_known_ips out2" "log_lines log1 = log_lines log2"
  shows "compute_stats out1 log1 = compute_stats out2 log2"
  using assms by (simp add: compute_stats_def final_counts_events counted_events_def)

theorem C7_same_inputs_witness:
  "compute_stats (Inr ''root pts/0 10.0.0.5 Mon\<newline>bob pts/1 10.0.0.6 Tue\<newline>'')
     (Opened [Line ''Jun 22 08:15:20 host sshd: Failed password for root from 10.0.0.7 port 2222''])
   = compute_stats (Inr ''bob pts/1 10.0.0.6 Tue\<newline>root pts/0 10.0.0.5 Mon\<newline>root pts/0 10.0.0.5 Mon'')
     (Opened [Line ''Jun 22 08:15:20 host sshd: Failed password for root from 10.0.0.7 port 2222'',
        ReadError OSError, Line ''Jun 22 09:15:20 host sshd: Invalid user bob from 10.0.0.8''])"
proof -
  have a: "get_known_ips (Inr ''root pts/0 10.0.0.5 Mon\<newline>bob pts/1 10.0.0.6 Tue\<newline>'')
     = get_known_ips (Inr ''bob pts/1 10.0.0.6 Tue\<newline>root pts/0 10.0.0.5 Mon\<newline>root pts/0 10.0.0.5 Mon'')"
    by code_simp
  have b: "log_lines (Opened [Line ''Jun 22 08:15:20 host sshd: Failed password for root from 10.0.0.7 port 2222''])
    = log_lines (Opened [Line ''Jun 22 08:15:20 host sshd: Failed password for root from 10.0.0.7 port 2222'',
        ReadError OSError, Line ''Jun 22 09:15:20 host sshd: Invalid user bob from 10.0.0.8''])"
    by (simp add: log_lines_def)
  show ?thesis by (rule C7_snapshot_determined_by_log_and_allowlist[OF a b])
qed

text \<open>
  Claim C8. When the session-history command cannot be run or fails, \<open>get_known_ips\<close>
  returns the empty set, and the aggregation runs with no allowlist.
\<close>

theorem C8_unavailable_history_gives_empty_allowlist:
  "get_known_ips (Inl e) = {} \<and> compute_stats (Inl e) log = snapshot (final_counts {} log)"
  by (simp add: compute_stats_def)

text \<open>
  Claim C9. The top-users and top-addresses views are the first 10 entries of the list
  of all keys with their counts, ranked by descending count and, among equal counts, by
  the position at which the key was first seen among the counted events.
\<close>
theorem C9_top_views_ranked:
  "(\<exists>full. top_users (compute_stats out log) = take 10 full
      \<and> set full = (\<lambda>k. (k, count_list (map ev_user (counted_events (get_known_ips out) log)) k))
                     ` set (map ev_user (counted_events (get_known_ips out) log))
      \<and> distinct (map fst full)
      \<and> sorted_wrt (ranks_before (map ev_user (counted_events (get_known_ips out) log))) full)
   \<and> (\<exists>full. top_ips (compute_stats out log) = take 10 full
      \<and> set full = (\<lambda>k. (k, count_list (map ev_ip (counted_events (get_known_ips out) log)) k))
                     ` set (map ev_ip (counted_events (get_known_ips out) log))
      \<and> distinct (map fst full)
      \<and> sorted_wrt (ranks_before (map ev_ip (counted_events (get_known_ips out) log))) full)"
  unfolding snapshot_fields final_user_counts final_ip_counts
  by (intro conjI most_common_ranked)

text \<open>An example of the ranking: \<open>carol\<close> and \<open>alice\<close> have one event each, and \<open>carol\<close>
  was seen first.\<close>

lemma most_common_tie_example:
  "top_users (compute_stats (Inl FileNotFoundError)
      (Opened [Line ''Jun 22 08:15:20 host sshd: Invalid user carol from 10.0.0.5'',
               Line ''Jun 22 08:16:20 host sshd: Invalid user bob from 10.0.0.6'',
               Line ''Jun 22 08:17:20 host sshd: Invalid user alice from 10.0.0.6'',
               Line ''Jun 22 08:18:20 host sshd: Invalid user bob from 10.0.0.7''])) =
     [(''bob'', 2), (''carol'', 1), (''alice'', 1)]"
  by code_simp

text \<open>
  Claim C10. The counts of the hourly view add up to the number of counted events, every
  count listed in a view is at least 1, and the counts of the top-users view and of the
  top-addresses view add up to at most the sum of the hourly counts.
\<close>
theorem C10_views_consistent:
  "total (hourly (compute_stats out log)) = length (counted_events (get_known_ips out) log)
   \<and> (\<forall>(k, n) \<in> set (top_users (compute_stats out log)) \<union> set (top_ips (compute_stats out log))
                    \<union> set (hourly (compute_stats out log)). 1 \<le> n)
   \<and> total (top_users (compute_stats out log)) \<le> total (hourly (compute_stats out log))
   \<and> total (top_ips (compute_stats out log)) \<le> total (hourly (compute_stats out log))"
proof -
  let ?evs = "counted_events (get_known_ips out) log"
  have th: "total (hourly (compute_stats out log)) = length ?evs"
    by (simp add: snapshot_fields final_hourly_counts sorted_items_def total_sort_key
        total_fold_incr total_Nil)
  have tu: "total (top_users (compute_stats out log)) \<le> length ?evs"
    using total_most_common[of 10 "fold counter_incr (map ev_user ?evs) []"]
    by (simp add: snapshot_fields final_user_counts total_fold_incr total_Nil)
  have ti: "total (top_ips (compute_stats out log)) \<le> length ?evs"
    using total_most_common[of 10 "fold counter_incr (map ev_ip ?evs) []"]
    by (simp add: snapshot_fields final_ip_counts total_fold_incr total_Nil)
  have pos: "\<forall>(k, n) \<in> set (fold counter_incr ks []). 1 \<le> n" for ks
    by (rule positive_fold_incr) simp
  have pu: "\<forall>(k, n) \<in> set (top_users (compute_stats out log)). 1 \<le> n"
    using pos[of "map ev_user ?evs"] set_most_common
    unfolding snapshot_fields final_user_counts by blast
  have pi: "\<forall>(k, n) \<in> set (top_ips (compute_stats out log)). 1 \<le> n"
    using pos[of "map ev_ip ?evs"] set_most_common
    unfolding snapshot_fields final_ip_counts by blast
  have ph: "\<forall>(k, n) \<in> set (hourly (compute_stats out log)). 1 \<le> n"
    using pos[of "map ev_hour ?evs"]
    by (simp add: snapshot_fields final_hourly_counts set_sorted_items)
  show ?thesis using th tu ti pu pi ph by auto
qed

theorem C10_consistency_witness:
  "total (hourly (compute_stats (Inl FileNotFoundError)
      (Opened [Line ''Jun 22 08:15:20 host sshd: Failed password for root from 10.0.0.5 port 2222'',
               Line ''Jun 22 08:45:20 host sshd: Invalid user bob from 10.0.0.6''])))
     = length (counted_events (get_known_ips (Inl FileNotFoundError))
      (Opened [Line ''Jun 22 08:15:20 host sshd: Failed password for root from 10.0.0.5 port 2222'',
               Line ''Jun 22 08:45:20 host sshd: Invalid user bob from 10.0.0.6'']))
   \<and> hourly (compute_stats (Inl FileNotFoundError)
      (Opened [Line ''Jun 22 08:15:20 host sshd: Failed password for root from 10.0.0.5 port 2222'',
               Line ''Jun 22 08:45:20 host sshd: Invalid user bob from 10.0.0.6''])) = [(''1900-06-22 08:00'', 2)]"
proof -
  have h: "hourly (compute_stats (Inl FileNotFoundError)
      (Opened [Line ''Jun 22 08:15:20 host sshd: Failed password for root from 10.0.0.5 port 2222'',
               Line ''Jun 22 08:45:20 host sshd: Invalid user bob from 10.0.0.6''])) = [(''1900-06-22 08:00'', 2)]"
    by code_simp
  from conjunct1[OF C10_views_consistent] h show ?thesis by (rule conjI)
qed

end
